theory Spec2Isabelle
  imports Main "HOL-Library.Multiset" "HOL-Library.List_Lexorder" "HOL-Library.Char_ord"
    "HOL-Library.Product_Lexorder"
begin

section \<open>Paths and strings of the host platform\<close>

text \<open>
  The loader only ever builds paths by appending one directory-entry name to a directory
  (\<^verbatim>\<open>path.join(dir, entry.name)\<close>), so a path is modelled as its list of segments, root
  first. The functions below are Node's \<^verbatim>\<open>path.join\<close>, \<^verbatim>\<open>path.relative\<close>,
  \<^verbatim>\<open>path.basename\<close> and \<^verbatim>\<open>path.extname\<close> on such normalised paths; \<open>path_str\<close> renders a
  path the way a template literal prints it on a POSIX host.
\<close>

type_synonym path = "string list"

definition path_join :: "path \<Rightarrow> string \<Rightarrow> path" where
  "path_join dir nm = dir @ [nm]"

fun path_relative :: "path \<Rightarrow> path \<Rightarrow> path" where
  "path_relative (a # as) (b # bs) =
     (if a = b then path_relative as bs
      else replicate (Suc (length as)) ''..'' @ (b # bs))"
| "path_relative [] bs = bs"
| "path_relative as [] = replicate (length as) ''..''"

definition path_basename :: "path \<Rightarrow> string" where
  "path_basename p = (if p = [] then [] else last p)"

text \<open>
  \<^verbatim>\<open>path.extname\<close> of a single name (no separator inside): the text from the last dot on;
  empty when there is no dot, when the last dot is the first character, and for the
  name \<^verbatim>\<open>..\<close>.
\<close>

definition path_extname :: "string \<Rightarrow> string" where
  "path_extname nm =
     (let r = rev nm;
          ext = rev (takeWhile (\<lambda>c. c \<noteq> CHR ''.'') r);
          upto_dot = dropWhile (\<lambda>c. c \<noteq> CHR ''.'') r
      in if upto_dot = [] then []
         else if tl upto_dot = [] then []
         else if nm = ''..'' then []
         else CHR ''.'' # ext)"

definition path_str :: "path \<Rightarrow> string" where
  "path_str p = concat (map (\<lambda>seg. CHR ''/'' # seg) p)"

definition startsWith :: "string \<Rightarrow> string \<Rightarrow> bool" where
  "startsWith s p = (take (length p) s = p)"

text \<open>\<^verbatim>\<open>String.prototype.toLowerCase\<close>, on the ASCII letters (other characters are kept).\<close>

definition lower_char :: "char \<Rightarrow> char" where
  "lower_char c =
     (case map_of (zip ''ABCDEFGHIJKLMNOPQRSTUVWXYZ'' ''abcdefghijklmnopqrstuvwxyz'') c of
        Some l \<Rightarrow> l
      | None \<Rightarrow> c)"

definition toLowerCase :: "string \<Rightarrow> string" where
  "toLowerCase s = map lower_char s"

text \<open>\<^verbatim>\<open>Array.prototype.join\<close>.\<close>

fun join_with :: "string \<Rightarrow> string list \<Rightarrow> string" where
  "join_with sep [] = []"
| "join_with sep [x] = x"
| "join_with sep (x # y # ys) = x @ sep @ join_with sep (y # ys)"

section \<open>The directory tree\<close>

text \<open>
  A \<open>Dirent\<close> is what \<^verbatim>\<open>fsp.readdir(dir, { withFileTypes: true })\<close> lists: a name and
  whether \<^verbatim>\<open>isDirectory()\<close> holds (\<open>File\<close> is any entry for which it does not). A
  directory entry carries what \<^verbatim>\<open>readdir\<close> answers on its own path: \<open>Some entries\<close>,
  or \<open>None\<close> when the call throws (the directory cannot be read). The tree handed to
  the scanner is the answer of \<^verbatim>\<open>readdir\<close> on the root. The \<^verbatim>\<open>console.log\<close> and
  \<^verbatim>\<open>console.error\<close> calls of the loader change no result and are left out.
\<close>

datatype Dirent =
    File (dirent_name: string)
  | isDirectory: Directory (dirent_name: string) (listing: "Dirent list option")

record FileEntry =
  fullPath :: path
  relativePath :: path

definition EXCLUDED_DIRS :: "string set" where
  "EXCLUDED_DIRS = {''.git'', ''.svn'', ''.hg'', ''node_modules'', ''dist'', ''build'',
     ''.next'', ''.cache'', ''.idea'', ''.vscode'', ''.DS_Store''}"

definition EXCLUDED_FILES :: "string set" where
  "EXCLUDED_FILES = {''.DS_Store'', ''Thumbs.db''}"

definition ALLOWED_EXTENSIONS :: "string set" where
  "ALLOWED_EXTENSIONS = {''.yaml'', ''.yml''}"

definition shouldIncludeModeFile :: "path \<Rightarrow> path \<Rightarrow> bool" where
  "shouldIncludeModeFile full_path relative_path =
     (let base = path_basename full_path in if startsWith base ''_'' then False else True)"

text \<open>
  \<open>walk\<close> is the inner closure of \<^verbatim>\<open>scanForModeFiles\<close>; \<open>walk_entries\<close> is its
  \<^verbatim>\<open>for (const entry of entries)\<close> loop. The array \<^verbatim>\<open>results\<close> the closure pushes to is
  passed in and returned.
\<close>

function walk :: "path \<Rightarrow> path \<Rightarrow> Dirent list option \<Rightarrow> FileEntry list \<Rightarrow> FileEntry list"
  and walk_entries :: "path \<Rightarrow> path \<Rightarrow> Dirent list \<Rightarrow> FileEntry list \<Rightarrow> FileEntry list"
where
  "walk rootDir dir None results = results"
| "walk rootDir dir (Some entries) results = walk_entries rootDir dir entries results"
| "walk_entries rootDir dir [] results = results"
| "walk_entries rootDir dir (entry # rest) results =
    (let full_path = path_join dir (dirent_name entry);
         relative_path = path_relative rootDir full_path
     in
       if startsWith (dirent_name entry) ''.'' \<and> dirent_name entry \<noteq> ''.roo''
          \<and> isDirectory entry
       then walk_entries rootDir dir rest results
       else if isDirectory entry then
         (if dirent_name entry \<in> EXCLUDED_DIRS
          then walk_entries rootDir dir rest results
          else walk_entries rootDir dir rest (walk rootDir full_path (listing entry) results))
       else if dirent_name entry \<in> EXCLUDED_FILES
       then walk_entries rootDir dir rest results
       else
         (let ext = toLowerCase (path_extname (dirent_name entry)) in
          if ext \<notin> ALLOWED_EXTENSIONS
          then walk_entries rootDir dir rest results
          else if shouldIncludeModeFile full_path relative_path
          then walk_entries rootDir dir rest
                 (results @ [\<lparr>fullPath = full_path, relativePath = relative_path\<rparr>])
          else walk_entries rootDir dir rest results))"
  by pat_completeness auto

termination
proof (relation "measure (case_sum (\<lambda>(r, d, l, res). size_option (size_list size) l)
                                   (\<lambda>(r, d, es, res). size_list size es))", goal_cases)
  case (5 rootDir dir entry rest results x xa)
  then show ?case by (cases entry) auto
qed auto

definition scanForModeFiles :: "Dirent list option \<Rightarrow> path \<Rightarrow> FileEntry list" where
  "scanForModeFiles tree rootDir = walk rootDir rootDir tree []"

section \<open>Loading one file\<close>

datatype error = Error (message: string)

text \<open>
  What \<^verbatim>\<open>yaml.parse\<close> can return, with the three tests the loader applies to it:
  \<^verbatim>\<open>!parsed\<close>, \<^verbatim>\<open>typeof parsed\<close> and \<^verbatim>\<open>Array.isArray(parsed)\<close>. Numbers are
  integers here; every number has type \<^verbatim>\<open>number\<close> and is rejected alike.
\<close>

datatype yaml =
    YNull
  | YBool bool
  | YNumber int
  | YString string
  | YSeq "yaml list"
  | YMap "(string \<times> yaml) list"

fun falsy :: "yaml \<Rightarrow> bool" where
  "falsy YNull = True"
| "falsy (YBool b) = (\<not> b)"
| "falsy (YNumber n) = (n = 0)"
| "falsy (YString s) = (s = [])"
| "falsy (YSeq xs) = False"
| "falsy (YMap kvs) = False"

fun typeof :: "yaml \<Rightarrow> string" where
  "typeof YNull = ''object''"
| "typeof (YBool b) = ''boolean''"
| "typeof (YNumber n) = ''number''"
| "typeof (YString s) = ''string''"
| "typeof (YSeq xs) = ''object''"
| "typeof (YMap kvs) = ''object''"

fun isArray :: "yaml \<Rightarrow> bool" where
  "isArray (YSeq xs) = True"
| "isArray v = False"

datatype ModeSource = project | global

record ModeConfig =
  slug :: string
  name :: string
  roleDefinition :: string
  groups :: "string list"
  source :: "ModeSource option"

record issue =
  issue_path :: "string list"
  issue_message :: string

text \<open>
  The collaborators of the loader that are not part of it: reading a file's text
  (\<^verbatim>\<open>fsp.readFile\<close>, \<open>Inl\<close> when the promise rejects), the YAML parser (\<open>Inl\<close> when it
  throws) and the schema validator \<^verbatim>\<open>modeConfigSchema.safeParse\<close> (\<open>Inl\<close> the issues).
\<close>

record host =
  readFile :: "path \<Rightarrow> error + string"
  yaml_parse :: "string \<Rightarrow> error + yaml"
  safeParse :: "yaml \<Rightarrow> issue list + ModeConfig"

definition formatIssues :: "issue list \<Rightarrow> string" where
  "formatIssues issues =
     join_with ''; ''
       (map (\<lambda>i. (let p = join_with ''.'' (issue_path i)
                   in if p = [] then ''(root)'' else p) @ '': '' @ issue_message i) issues)"

text \<open>The body of the \<^verbatim>\<open>try\<close> block of \<^verbatim>\<open>loadAndValidateMode\<close>: \<open>Inl\<close> is a thrown error.\<close>

definition loadAndValidateMode_try :: "host \<Rightarrow> path \<Rightarrow> error + ModeConfig" where
  "loadAndValidateMode_try h filePath =
     (case readFile h filePath of
        Inl err \<Rightarrow> Inl err
      | Inr raw \<Rightarrow>
          (case yaml_parse h raw of
             Inl err \<Rightarrow> Inl err
           | Inr parsed \<Rightarrow>
               if falsy parsed \<or> typeof parsed \<noteq> ''object'' \<or> isArray parsed
               then Inl (Error ''Mode file must contain a single YAML object'')
               else
                 (case safeParse h parsed of
                    Inl issues \<Rightarrow>
                      Inl (Error (''Schema validation failed: '' @ formatIssues issues))
                  | Inr data \<Rightarrow> Inr data)))"

text \<open>
  The whole function: the \<^verbatim>\<open>catch\<close> clause logs the message and returns \<^verbatim>\<open>null\<close>. The
  result is \<open>Inl\<close> when the call throws, \<open>Inr None\<close> for \<^verbatim>\<open>null\<close>.
\<close>

definition loadAndValidateMode :: "host \<Rightarrow> path \<Rightarrow> error + ModeConfig option" where
  "loadAndValidateMode h filePath =
     (case loadAndValidateMode_try h filePath of
        Inr data \<Rightarrow> Inr (Some data)
      | Inl err \<Rightarrow> Inr None)"

section \<open>Loading a directory\<close>

definition duplicateSlugMessage :: "string \<Rightarrow> path \<Rightarrow> path \<Rightarrow> string" where
  "duplicateSlugMessage s conflictPath filePath =
     ''Duplicate mode slug detected: '' @ [CHR 0x22] @ s @ [CHR 0x22] @ ''. Files: ''
       @ path_str conflictPath @ '' and '' @ path_str filePath"

text \<open>
  The \<^verbatim>\<open>for (const f of files)\<close> loop of \<^verbatim>\<open>loadModesFromDirectory\<close>, with its two
  variables \<^verbatim>\<open>modes\<close> and \<^verbatim>\<open>slugToFile\<close>.
\<close>

fun loadModes_loop ::
  "host \<Rightarrow> FileEntry list \<Rightarrow> ModeConfig list \<Rightarrow> (string \<rightharpoonup> path) \<Rightarrow> error + ModeConfig list"
where
  "loadModes_loop h [] modes slugToFile = Inr modes"
| "loadModes_loop h (f # files) modes slugToFile =
     (case loadAndValidateMode h (fullPath f) of
        Inl err \<Rightarrow> Inl err
      | Inr None \<Rightarrow> loadModes_loop h files modes slugToFile
      | Inr (Some mode) \<Rightarrow>
          (case slugToFile (slug mode) of
             Some conflictPath \<Rightarrow>
               Inl (Error (duplicateSlugMessage (slug mode) conflictPath (fullPath f)))
           | None \<Rightarrow>
               loadModes_loop h files (modes @ [mode])
                 (slugToFile(slug mode \<mapsto> fullPath f))))"

text \<open>
  \<^verbatim>\<open>modes.sort((a, b) => a.slug.localeCompare(b.slug))\<close>: a stable sort by the host's
  collation order of the slugs. The collation is a parameter: \<open>collationKey\<close> maps a
  string to its sort key, and \<^verbatim>\<open>localeCompare\<close> compares the keys.
\<close>

definition loadModesFromDirectory ::
  "(string \<Rightarrow> 'k::linorder) \<Rightarrow> host \<Rightarrow> Dirent list option \<Rightarrow> path \<Rightarrow> error + ModeConfig list"
where
  "loadModesFromDirectory collationKey h tree rootDir =
     (let files = scanForModeFiles tree rootDir in
      case loadModes_loop h files [] Map.empty of
        Inl err \<Rightarrow> Inl err
      | Inr modes \<Rightarrow> Inr (sort_key (\<lambda>m. collationKey (slug m)) modes))"

section \<open>Notions used to state the properties\<close>

text \<open>
  What a candidate file contributes: its validated mode, or nothing when
  \<open>loadAndValidateMode\<close> answers \<^verbatim>\<open>null\<close>. \<open>validModes\<close> lists the modes of the candidates
  that load, in scan order.
\<close>

definition loaded :: "host \<Rightarrow> FileEntry \<Rightarrow> ModeConfig option" where
  "loaded h f = (case loadAndValidateMode h (fullPath f) of Inr r \<Rightarrow> r | Inl err \<Rightarrow> None)"

definition validModes :: "host \<Rightarrow> FileEntry list \<Rightarrow> ModeConfig list" where
  "validModes h files = List.map_filter (loaded h) files"

text \<open>
  A content error: the file's text is read, and then it does not parse, or parses to
  something that is not a mapping (null, a scalar, an array), or the mapping fails the
  schema.
\<close>

definition contentError :: "host \<Rightarrow> path \<Rightarrow> bool" where
  "contentError h filePath =
     (case readFile h filePath of
        Inl err \<Rightarrow> False
      | Inr raw \<Rightarrow>
          (case yaml_parse h raw of
             Inl err \<Rightarrow> True
           | Inr parsed \<Rightarrow>
               (case parsed of
                  YMap kvs \<Rightarrow> isl (safeParse h parsed)
                | _ \<Rightarrow> True)))"


text \<open>
  The path segments, below the directory being walked, under which the scan can push a
  file: no directory on the way is an excluded or a hidden one (\<^verbatim>\<open>.roo\<close> apart), and
  the file's name is not an excluded one, has an allowed extension (compared in lower
  case) and does not start with an underscore.
\<close>

definition candidateSegments :: "path \<Rightarrow> bool" where
  "candidateSegments segs \<longleftrightarrow>
     segs \<noteq> []
     \<and> (\<forall>d \<in> set (butlast segs). d \<notin> EXCLUDED_DIRS \<and> (startsWith d ''.'' \<longrightarrow> d = ''.roo''))
     \<and> last segs \<notin> EXCLUDED_FILES
     \<and> toLowerCase (path_extname (last segs)) \<in> ALLOWED_EXTENSIONS
     \<and> \<not> startsWith (last segs) ''_''"

section \<open>A small host for concrete runs\<close>

text \<open>
  A file system given as a table from paths to texts (a path outside the table cannot be
  read), with a toy document syntax standing in for the YAML parser and the schema:
  \<^verbatim>\<open>mode: s\<close> is a complete mode record with slug \<open>s\<close>, \<^verbatim>\<open>slug: s\<close> a record with
  nothing but a slug (the schema rejects it), \<^verbatim>\<open>- x\<close> an array, a text starting with a
  colon does not parse, the empty text is null and anything else is a scalar.
\<close>

definition demo_parse :: "string \<Rightarrow> error + yaml" where
  "demo_parse raw =
     (if startsWith raw '':'' then Inl (Error ''YAMLParseError'')
      else if raw = [] then Inr YNull
      else if startsWith raw ''- '' then Inr (YSeq [YString (drop 2 raw)])
      else if startsWith raw ''slug: '' then Inr (YMap [(''slug'', YString (drop 6 raw))])
      else if startsWith raw ''mode: '' then
        Inr (YMap [(''slug'', YString (drop 6 raw)), (''name'', YString (drop 6 raw)),
                   (''roleDefinition'', YString ''Does things'')])
      else Inr (YString raw))"

definition demo_schema :: "yaml \<Rightarrow> issue list + ModeConfig" where
  "demo_schema v =
     (case v of
        YMap kvs \<Rightarrow>
          (case (map_of kvs ''slug'', map_of kvs ''name'', map_of kvs ''roleDefinition'') of
             (Some (YString s), Some (YString n), Some (YString r)) \<Rightarrow>
               Inr \<lparr>slug = s, name = n, roleDefinition = r, groups = [''read''], source = None\<rparr>
           | _ \<Rightarrow> Inl [\<lparr>issue_path = [''name''], issue_message = ''Required''\<rparr>])
      | _ \<Rightarrow> Inl [\<lparr>issue_path = [], issue_message = ''Expected object''\<rparr>])"

definition demo_host :: "(path \<times> string) list \<Rightarrow> host" where
  "demo_host table =
     \<lparr>readFile = (\<lambda>p. case map_of table p of
                         Some raw \<Rightarrow> Inr raw
                       | None \<Rightarrow> Inl (Error ''ENOENT: no such file or directory'')),
      yaml_parse = demo_parse,
      safeParse = demo_schema\<rparr>"

text \<open>
  A collation for concrete runs: how \<^verbatim>\<open>localeCompare\<close> orders strings of ASCII letters,
  digits and hyphens under the default English collation. Two strings are compared
  character by character with the case of the letters ignored (a hyphen before the
  digits, the digits before the letters); two strings equal that way are told apart by
  case, a lowercase letter before its capital. So \<^verbatim>\<open>alpha\<close> sorts before \<^verbatim>\<open>Zeta\<close>, which
  the order of the character codes puts first.
\<close>

definition isUpperCase :: "char \<Rightarrow> bool" where
  "isUpperCase c = (c \<in> set ''ABCDEFGHIJKLMNOPQRSTUVWXYZ'')"

definition englishCollationKey :: "string \<Rightarrow> string \<times> bool list" where
  "englishCollationKey s = (toLowerCase s, map isUpperCase s)"

definition demo_mode :: "string \<Rightarrow> ModeConfig" where
  "demo_mode s =
     \<lparr>slug = s, name = s, roleDefinition = ''Does things'', groups = [''read''], source = None\<rparr>"

section \<open>The precedence resolver\<close>

text \<open>
  Modelled from the spec: \<^verbatim>\<open>CustomModesManager.getCustomModes\<close> and its source aggregators
  are not among the sources (only their tests are). Section 4.3 and 4.4 of the
  specification: each of the four sources yields its modes with \<open>source\<close> stamped to the
  scope; the sources are processed in the order project directory, project monolithic
  file, global directory, global monolithic file; a slug not yet present in the
  accumulator is inserted with the value of the first source in which it appears; the
  result is sorted by slug in simple lexical order.
\<close>

text \<open>The helper \<^verbatim>\<open>m(slug, name, source)\<close> of the manager's tests.\<close>

definition test_mode :: "string \<Rightarrow> string \<Rightarrow> ModeSource \<Rightarrow> ModeConfig" where
  "test_mode s n src =
     \<lparr>slug = s, name = n, roleDefinition = ''Role for '' @ s, groups = [''read''],
      source = Some src\<rparr>"

definition stampSource :: "ModeSource \<Rightarrow> ModeConfig list \<Rightarrow> ModeConfig list" where
  "stampSource scope modes = map (\<lambda>m. m\<lparr>source := Some scope\<rparr>) modes"

fun mergeSource :: "ModeConfig list \<Rightarrow> ModeConfig list \<Rightarrow> ModeConfig list" where
  "mergeSource acc [] = acc"
| "mergeSource acc (m # ms) =
     (if slug m \<in> set (map slug acc) then mergeSource acc ms
      else mergeSource (acc @ [m]) ms)"

definition getCustomModes ::
  "ModeConfig list \<Rightarrow> ModeConfig list \<Rightarrow> ModeConfig list \<Rightarrow> ModeConfig list \<Rightarrow> ModeConfig list"
where
  "getCustomModes projectDirectory projectFile globalDirectory globalFile =
     sort_key slug
       (foldl mergeSource []
          [stampSource project projectDirectory, stampSource project projectFile,
           stampSource global globalDirectory, stampSource global globalFile])"

section \<open>Properties of the directory scan\<close>

lemmas walk_entries_Cons = walk_entries.simps(2)

declare walk_entries.simps(2) [simp del]

lemma walk_results_prefix:
  "walk r d t (xs @ ys) = xs @ walk r d t ys"
  "walk_entries r d es (xs @ ys) = xs @ walk_entries r d es ys"
proof (induction r d t ys and r d es ys arbitrary: xs and xs rule: walk_walk_entries.induct)
  case (4 rootDir dir entry rest results)
  then show ?case by (simp add: walk_entries_Cons Let_def)
qed simp_all

lemma walk_entries_single:
  "walk_entries r d (e # es) results = walk_entries r d es (walk_entries r d [e] results)"
  by (simp add: walk_entries_Cons Let_def)

lemma walk_entries_append:
  "walk_entries r d (es1 @ es2) results = walk_entries r d es2 (walk_entries r d es1 results)"
proof (induction es1 arbitrary: results)
  case Nil
  then show ?case by simp
next
  case (Cons e es1)
  have "walk_entries r d ((e # es1) @ es2) results
        = walk_entries r d (es1 @ es2) (walk_entries r d [e] results)"
    using walk_entries_single [of r d e "es1 @ es2" results] by simp
  also have "\<dots> = walk_entries r d es2 (walk_entries r d es1 (walk_entries r d [e] results))"
    by (rule Cons.IH)
  also have "\<dots> = walk_entries r d es2 (walk_entries r d (e # es1) results)"
    using walk_entries_single [of r d e es1 results] by simp
  finally show ?case .
qed

lemma walk_entries_middle:
  "walk_entries r d (before @ e # after) results
     = walk_entries r d after (walk_entries r d [e] (walk_entries r d before results))"
  using walk_entries_append [of r d before "e # after" results]
        walk_entries_single [of r d e after "walk_entries r d before results"]
  by simp

lemma walk_entries_unreadable: "walk_entries r d [Directory n None] results = results"
  by (simp add: walk_entries_Cons Let_def)




lemma path_basename_join: "path_basename (path_join d nm) = nm"
  by (simp add: path_basename_def path_join_def)

lemma walk_entries_file:
  "walk_entries r d [File nm] results =
     (if nm \<notin> EXCLUDED_FILES \<and> toLowerCase (path_extname nm) \<in> ALLOWED_EXTENSIONS
         \<and> \<not> startsWith nm ''_''
      then results @ [\<lparr>fullPath = path_join d nm,
                         relativePath = path_relative r (path_join d nm)\<rparr>]
      else results)"
  by (simp add: walk_entries_Cons Let_def shouldIncludeModeFile_def path_basename_join)

lemma walk_entries_superset: "set results \<subseteq> set (walk_entries r d es results)"
  using walk_results_prefix(2) [of r d es results "[]"] by simp

lemma walk_entries_contains:
  assumes "e \<in> set es"
  shows "set (walk_entries r d [e] []) \<subseteq> set (walk_entries r d es results)"
proof -
  from assms obtain xs ys where es: "es = xs @ e # ys" by (auto dest: split_list)
  let ?acc = "walk_entries r d xs results"
  have "walk_entries r d [e] ?acc = ?acc @ walk_entries r d [e] []"
    using walk_results_prefix(2) [of r d "[e]" ?acc "[]"] by simp
  then have "set (walk_entries r d [e] []) \<subseteq> set (walk_entries r d [e] ?acc)" by simp
  also have "\<dots> \<subseteq> set (walk_entries r d ys (walk_entries r d [e] ?acc))"
    by (rule walk_entries_superset)
  also have "walk_entries r d ys (walk_entries r d [e] ?acc) = walk_entries r d es results"
    unfolding es by (rule walk_entries_middle [symmetric])
  finally show ?thesis .
qed

text \<open>
  Claim C7. A root directory that does not exist or cannot be read makes
  \<open>loadModesFromDirectory\<close> return the empty list, not an error. An unreadable directory
  met anywhere during the walk (at any directory \<open>dir\<close>, with any results collected so
  far) is skipped and the walk goes on: the scan is the one of the listing without that
  entry; it keeps the results collected so far; every candidate file listed before or
  after the unreadable directory is in it, under its own path; and so is everything
  that any other entry of the listing, a readable subdirectory included, yields.
\<close>

theorem unreadable_directories_contribute_nothing:
  "loadModesFromDirectory collationKey h None rootDir = Inr []
   \<and> walk_entries rootDir dir (before @ Directory n None # after) results
       = walk_entries rootDir dir (before @ after) results
   \<and> set results \<subseteq> set (walk_entries rootDir dir (before @ Directory n None # after) results)
   \<and> (\<forall>nm. File nm \<in> set (before @ after) \<and> nm \<notin> EXCLUDED_FILES
            \<and> toLowerCase (path_extname nm) \<in> ALLOWED_EXTENSIONS \<and> \<not> startsWith nm ''_''
         \<longrightarrow> \<lparr>fullPath = path_join dir nm,
               relativePath = path_relative rootDir (path_join dir nm)\<rparr>
             \<in> set (walk_entries rootDir dir (before @ Directory n None # after) results))
   \<and> (\<forall>e \<in> set (before @ after).
         set (walk_entries rootDir dir [e] [])
           \<subseteq> set (walk_entries rootDir dir (before @ Directory n None # after) results))"
proof (intro conjI allI impI ballI)
  show "loadModesFromDirectory collationKey h None rootDir = Inr []"
    by (simp add: loadModesFromDirectory_def scanForModeFiles_def)
next
  have "walk_entries rootDir dir (before @ Directory n None # after) results
        = walk_entries rootDir dir after
            (walk_entries rootDir dir [Directory n None] (walk_entries rootDir dir before results))"
    by (rule walk_entries_middle)
  also have "\<dots> = walk_entries rootDir dir after (walk_entries rootDir dir before results)"
    by (simp only: walk_entries_unreadable)
  also have "\<dots> = walk_entries rootDir dir (before @ after) results"
    by (simp only: walk_entries_append)
  finally show "walk_entries rootDir dir (before @ Directory n None # after) results
       = walk_entries rootDir dir (before @ after) results" .
next
  show "set results \<subseteq> set (walk_entries rootDir dir (before @ Directory n None # after) results)"
    by (rule walk_entries_superset)
next
  fix nm
  assume a: "File nm \<in> set (before @ after) \<and> nm \<notin> EXCLUDED_FILES
            \<and> toLowerCase (path_extname nm) \<in> ALLOWED_EXTENSIONS \<and> \<not> startsWith nm ''_''"
  then have "File nm \<in> set (before @ Directory n None # after)" by auto
  then have "set (walk_entries rootDir dir [File nm] [])
      \<subseteq> set (walk_entries rootDir dir (before @ Directory n None # after) results)"
    by (rule walk_entries_contains)
  moreover from a have "walk_entries rootDir dir [File nm] []
      = [\<lparr>fullPath = path_join dir nm, relativePath = path_relative rootDir (path_join dir nm)\<rparr>]"
    by (simp add: walk_entries_file)
  ultimately show "\<lparr>fullPath = path_join dir nm,
               relativePath = path_relative rootDir (path_join dir nm)\<rparr>
             \<in> set (walk_entries rootDir dir (before @ Directory n None # after) results)"
    by simp
next
  fix e
  assume "e \<in> set (before @ after)"
  then have "e \<in> set (before @ Directory n None # after)" by auto
  then show "set (walk_entries rootDir dir [e] [])
           \<subseteq> set (walk_entries rootDir dir (before @ Directory n None # after) results)"
    by (rule walk_entries_contains)
qed

theorem unreadable_directories_contribute_nothing_witness:
  "File ''c.yaml'' \<in> set ([File ''a.yaml''] @ [Directory ''sub'' (Some [File ''b.yml'', Directory ''deep'' None]), File ''c.yaml''])
   \<and> ''c.yaml'' \<notin> EXCLUDED_FILES
   \<and> toLowerCase (path_extname ''c.yaml'') \<in> ALLOWED_EXTENSIONS
   \<and> \<not> startsWith ''c.yaml'' ''_''
   \<and> \<lparr>fullPath = path_join [''modes''] ''c.yaml'',
        relativePath = path_relative [''modes''] (path_join [''modes''] ''c.yaml'')\<rparr>
       \<in> set (walk_entries [''modes''] [''modes'']
                ([File ''a.yaml''] @ Directory ''locked'' None
                   # [Directory ''sub'' (Some [File ''b.yml'', Directory ''deep'' None]),
                      File ''c.yaml''])
                [])
   \<and> scanForModeFiles
         (Some [File ''a.yaml'', Directory ''locked'' None,
                Directory ''sub'' (Some [File ''b.yml'', Directory ''deep'' None]),
                File ''c.yaml''])
         [''modes'']
       = [\<lparr>fullPath = [''modes'', ''a.yaml''], relativePath = [''a.yaml'']\<rparr>,
          \<lparr>fullPath = [''modes'', ''sub'', ''b.yml''], relativePath = [''sub'', ''b.yml'']\<rparr>,
          \<lparr>fullPath = [''modes'', ''c.yaml''], relativePath = [''c.yaml'']\<rparr>]
   \<and> loadModesFromDirectory englishCollationKey
         (demo_host [([''modes'', ''a.yaml''], ''mode: alpha''),
                     ([''modes'', ''sub'', ''b.yml''], ''mode: beta''),
                     ([''modes'', ''c.yaml''], ''mode: gamma'')])
         (Some [File ''a.yaml'', Directory ''locked'' None,
                Directory ''sub'' (Some [File ''b.yml'', Directory ''deep'' None]),
                File ''c.yaml''])
         [''modes'']
       = Inr [demo_mode ''alpha'', demo_mode ''beta'', demo_mode ''gamma'']
   \<and> loadModesFromDirectory englishCollationKey
         (demo_host [([''modes'', ''a.yaml''], ''mode: alpha'')]) None [''modes''] = Inr []"
proof -
  let ?before = "[File ''a.yaml'']"
  let ?after = "[Directory ''sub'' (Some [File ''b.yml'', Directory ''deep'' None]), File ''c.yaml'']"
  have h1: "File ''c.yaml'' \<in> set (?before @ ?after)" by simp
  have h2: "''c.yaml'' \<notin> EXCLUDED_FILES" by (simp add: EXCLUDED_FILES_def)
  have h3: "toLowerCase (path_extname ''c.yaml'') \<in> ALLOWED_EXTENSIONS"
    by (simp add: toLowerCase_def path_extname_def lower_char_def ALLOWED_EXTENSIONS_def)
  have h4: "\<not> startsWith ''c.yaml'' ''_''" by (simp add: startsWith_def)
  note inst = unreadable_directories_contribute_nothing
      [of englishCollationKey "demo_host [([''modes'', ''a.yaml''], ''mode: alpha'')]"
          "[''modes'']" "[''modes'']" ?before "''locked''" ?after "[]"]
  from h1 h2 h3 h4
  have all: "File ''c.yaml'' \<in> set (?before @ ?after) \<and> ''c.yaml'' \<notin> EXCLUDED_FILES
            \<and> toLowerCase (path_extname ''c.yaml'') \<in> ALLOWED_EXTENSIONS
            \<and> \<not> startsWith ''c.yaml'' ''_''"
    by (intro conjI)
  have member: "\<lparr>fullPath = path_join [''modes''] ''c.yaml'',
        relativePath = path_relative [''modes''] (path_join [''modes''] ''c.yaml'')\<rparr>
       \<in> set (walk_entries [''modes''] [''modes''] (?before @ Directory ''locked'' None # ?after) [])"
    by (rule inst [THEN conjunct2, THEN conjunct2, THEN conjunct2, THEN conjunct1,
                  rule_format, OF all])
  have empty: "loadModesFromDirectory englishCollationKey
         (demo_host [([''modes'', ''a.yaml''], ''mode: alpha'')]) None [''modes''] = Inr []"
    by (rule inst [THEN conjunct1])
  have scan: "scanForModeFiles
         (Some [File ''a.yaml'', Directory ''locked'' None,
                Directory ''sub'' (Some [File ''b.yml'', Directory ''deep'' None]),
                File ''c.yaml''])
         [''modes'']
       = [\<lparr>fullPath = [''modes'', ''a.yaml''], relativePath = [''a.yaml'']\<rparr>,
          \<lparr>fullPath = [''modes'', ''sub'', ''b.yml''], relativePath = [''sub'', ''b.yml'']\<rparr>,
          \<lparr>fullPath = [''modes'', ''c.yaml''], relativePath = [''c.yaml'']\<rparr>]"
    by code_simp
  have run: "loadModesFromDirectory englishCollationKey
         (demo_host [([''modes'', ''a.yaml''], ''mode: alpha''),
                     ([''modes'', ''sub'', ''b.yml''], ''mode: beta''),
                     ([''modes'', ''c.yaml''], ''mode: gamma'')])
         (Some [File ''a.yaml'', Directory ''locked'' None,
                Directory ''sub'' (Some [File ''b.yml'', Directory ''deep'' None]),
                File ''c.yaml''])
         [''modes'']
       = Inr [demo_mode ''alpha'', demo_mode ''beta'', demo_mode ''gamma'']"
    by code_simp
  from h1 h2 h3 h4 member scan run empty show ?thesis by (intro conjI)
qed






lemma candidateSegments_single:
  "candidateSegments [nm] \<longleftrightarrow>
     nm \<notin> EXCLUDED_FILES \<and> toLowerCase (path_extname nm) \<in> ALLOWED_EXTENSIONS
     \<and> \<not> startsWith nm ''_''"
  by (simp add: candidateSegments_def)

lemma candidateSegments_Cons:
  "candidateSegments segs \<Longrightarrow> n \<notin> EXCLUDED_DIRS \<Longrightarrow> (startsWith n ''.'' \<longrightarrow> n = ''.roo'') \<Longrightarrow>
   candidateSegments (n # segs)"
  by (simp add: candidateSegments_def)

lemma walk_candidates:
  "f \<in> set (walk r d t results) \<Longrightarrow>
     f \<in> set results \<or> (\<exists>segs. candidateSegments segs \<and> fullPath f = d @ segs
                              \<and> relativePath f = path_relative r (d @ segs))"
  "f \<in> set (walk_entries r d es results) \<Longrightarrow>
     f \<in> set results \<or> (\<exists>segs. candidateSegments segs \<and> fullPath f = d @ segs
                              \<and> relativePath f = path_relative r (d @ segs))"
proof (induction r d t results and r d es results rule: walk_walk_entries.induct)
  case (1 rootDir dir results)
  then show ?case by simp
next
  case (2 rootDir dir entries results)
  then show ?case by simp
next
  case (3 rootDir dir results)
  then show ?case by simp
next
  case (4 rootDir dir entry rest results)
  let ?Q = "\<lambda>d. \<exists>segs. candidateSegments segs \<and> fullPath f = d @ segs
                              \<and> relativePath f = path_relative rootDir (d @ segs)"
  let ?full = "path_join dir (dirent_name entry)"
  let ?rel = "path_relative rootDir ?full"
  note ih_files = "4.IH"(5) [OF refl refl] "4.IH"(6) [OF refl refl _ _ _ refl]
    "4.IH"(7) [OF refl refl _ _ _ refl] "4.IH"(8) [OF refl refl _ _ _ refl]
  show ?case
  proof (cases entry)
    case (File nm)
    show ?thesis
    proof (cases "candidateSegments [nm]")
      case True
      then have cond: "nm \<notin> EXCLUDED_FILES" "toLowerCase (path_extname nm) \<in> ALLOWED_EXTENSIONS"
        "\<not> startsWith nm ''_''" by (simp_all add: candidateSegments_single)
      with File have eq: "walk_entries rootDir dir (entry # rest) results
          = walk_entries rootDir dir rest (results @ [\<lparr>fullPath = ?full, relativePath = ?rel\<rparr>])"
        by (simp add: walk_entries_Cons Let_def shouldIncludeModeFile_def path_basename_join)
      from cond File have "f \<in> set (results @ [\<lparr>fullPath = ?full, relativePath = ?rel\<rparr>]) \<or> ?Q dir"
        using ih_files "4.prems" eq
        by (simp add: shouldIncludeModeFile_def path_basename_join)
      moreover have "?Q dir" if "f = \<lparr>fullPath = ?full, relativePath = ?rel\<rparr>"
      proof -
        from that File True have "candidateSegments [nm] \<and> fullPath f = dir @ [nm]
            \<and> relativePath f = path_relative rootDir (dir @ [nm])"
          by (simp add: path_join_def)
        then show ?thesis by (intro exI)
      qed
      ultimately show ?thesis by auto
    next
      case False
      with File have eq: "walk_entries rootDir dir (entry # rest) results
          = walk_entries rootDir dir rest results"
        by (auto simp: walk_entries_Cons Let_def shouldIncludeModeFile_def path_basename_join
              candidateSegments_single)
      from False File "4.prems" eq consider
          (a) "nm \<in> EXCLUDED_FILES"
        | (b) "nm \<notin> EXCLUDED_FILES" "toLowerCase (path_extname nm) \<notin> ALLOWED_EXTENSIONS"
        | (c) "nm \<notin> EXCLUDED_FILES" "toLowerCase (path_extname nm) \<in> ALLOWED_EXTENSIONS"
              "startsWith nm ''_''"
        by (auto simp: candidateSegments_single)
      then show ?thesis
      proof cases
        case a
        with File ih_files "4.prems" eq show ?thesis by simp
      next
        case b
        with File ih_files "4.prems" eq show ?thesis by simp
      next
        case c
        with File ih_files "4.prems" eq show ?thesis
          by (simp add: shouldIncludeModeFile_def path_basename_join)
      qed
    qed
  next
    case (Directory n sub)
    show ?thesis
    proof (cases "startsWith n ''.'' \<and> n \<noteq> ''.roo''")
      case True
      with Directory have eq: "walk_entries rootDir dir (entry # rest) results
          = walk_entries rootDir dir rest results"
        by (simp add: walk_entries_Cons Let_def)
      with Directory True "4.IH"(1) [OF refl refl] "4.prems" show ?thesis by simp
    next
      case False
      show ?thesis
      proof (cases "n \<in> EXCLUDED_DIRS")
        case True
        with Directory have eq: "walk_entries rootDir dir (entry # rest) results
            = walk_entries rootDir dir rest results"
          by (simp add: walk_entries_Cons Let_def)
        with Directory True False "4.IH"(2) [OF refl refl] "4.prems" show ?thesis by simp
      next
        case notex: False
        with Directory False have eq: "walk_entries rootDir dir (entry # rest) results
            = walk_entries rootDir dir rest (walk rootDir ?full sub results)"
          by (auto simp: walk_entries_Cons Let_def)
        from Directory False notex "4.IH"(4) [OF refl refl] "4.prems" eq
        have "f \<in> set (walk rootDir ?full sub results) \<or> ?Q dir" by simp
        moreover have "f \<in> set results \<or> ?Q ?full" if "f \<in> set (walk rootDir ?full sub results)"
          using Directory False notex "4.IH"(3) [OF refl refl] that by simp
        moreover have "?Q dir" if "?Q ?full"
        proof -
          from that obtain segs where s: "candidateSegments segs" "fullPath f = ?full @ segs"
            "relativePath f = path_relative rootDir (?full @ segs)" by blast
          from s(1) notex False have "candidateSegments (n # segs)"
            by (intro candidateSegments_Cons) auto
          with s Directory have "candidateSegments (n # segs) \<and> fullPath f = dir @ (n # segs)
            \<and> relativePath f = path_relative rootDir (dir @ (n # segs))"
            by (simp add: path_join_def)
          then show ?thesis by (intro exI)
        qed
        ultimately show ?thesis by blast
      qed
    qed
  qed
qed

section \<open>Properties of the loader\<close>

lemma loadAndValidateMode_never_Inl: "loadAndValidateMode h p \<noteq> Inl e"
  by (simp add: loadAndValidateMode_def split: sum.splits)

lemma loadAndValidateMode_loaded: "loadAndValidateMode h (fullPath f) = Inr (loaded h f)"
  by (cases "loadAndValidateMode h (fullPath f)")
     (simp_all add: loaded_def loadAndValidateMode_never_Inl)

lemma validModes_Nil [simp]: "validModes h [] = []"
  by (simp add: validModes_def)

lemma validModes_Cons:
  "validModes h (f # files) =
     (case loaded h f of None \<Rightarrow> validModes h files | Some m \<Rightarrow> m # validModes h files)"
  by (simp add: validModes_def split: option.splits)

lemma validModes_append: "validModes h (xs @ ys) = validModes h xs @ validModes h ys"
  by (induction xs) (simp_all add: validModes_Cons split: option.splits)

lemma loadModes_loop_Cons:
  "loadModes_loop h (f # files) modes slugToFile =
     (case loaded h f of
        None \<Rightarrow> loadModes_loop h files modes slugToFile
      | Some mode \<Rightarrow>
          (case slugToFile (slug mode) of
             Some conflictPath \<Rightarrow>
               Inl (Error (duplicateSlugMessage (slug mode) conflictPath (fullPath f)))
           | None \<Rightarrow>
               loadModes_loop h files (modes @ [mode])
                 (slugToFile(slug mode \<mapsto> fullPath f))))"
  by (simp add: loadAndValidateMode_loaded)

lemma loadModes_loop_ok:
  "distinct (map slug (validModes h files)) \<Longrightarrow>
   \<forall>m \<in> set (validModes h files). slugToFile (slug m) = None \<Longrightarrow>
   loadModes_loop h files modes slugToFile = Inr (modes @ validModes h files)"
proof (induction files arbitrary: modes slugToFile)
  case Nil
  then show ?case by simp
next
  case (Cons f files)
  show ?case
  proof (cases "loaded h f")
    case None
    with Cons show ?thesis by (simp add: loadModes_loop_Cons validModes_Cons del: loadModes_loop.simps)
  next
    case (Some mode)
    with Cons.prems have free: "slugToFile (slug mode) = None"
      and d: "distinct (map slug (validModes h files))"
      and fresh: "\<forall>m \<in> set (validModes h files). slug m \<noteq> slug mode"
      and rest: "\<forall>m \<in> set (validModes h files). slugToFile (slug m) = None"
      by (auto simp: validModes_Cons image_iff)
    have "\<forall>m \<in> set (validModes h files). (slugToFile(slug mode \<mapsto> fullPath f)) (slug m) = None"
      using fresh rest by auto
    then have step: "loadModes_loop h files (modes @ [mode]) (slugToFile(slug mode \<mapsto> fullPath f))
                = Inr ((modes @ [mode]) @ validModes h files)"
      by (rule Cons.IH [OF d])
    have "loadModes_loop h (f # files) modes slugToFile
          = loadModes_loop h files (modes @ [mode]) (slugToFile(slug mode \<mapsto> fullPath f))"
      using Some free by (simp only: loadModes_loop_Cons option.case)
    also note step
    also have "(modes @ [mode]) @ validModes h files = modes @ validModes h (f # files)"
      using Some by (simp add: validModes_Cons)
    finally show ?thesis .
  qed
qed


lemma loadModes_loop_dup:
  "\<not> (distinct (map slug (validModes h files))
       \<and> (\<forall>m \<in> set (validModes h files). slugToFile (slug m) = None)) \<Longrightarrow>
   \<exists>g2 n2 p. g2 \<in> set files \<and> loaded h g2 = Some n2
      \<and> loadModes_loop h files modes slugToFile
          = Inl (Error (duplicateSlugMessage (slug n2) p (fullPath g2)))
      \<and> (slugToFile (slug n2) = Some p
          \<or> (\<exists>g1 n1 xs ys zs. files = xs @ g1 # ys @ g2 # zs \<and> loaded h g1 = Some n1
                \<and> slug n1 = slug n2 \<and> p = fullPath g1))"
proof (induction files arbitrary: modes slugToFile)
  case Nil
  then show ?case by simp
next
  case (Cons f files)
  show ?case
  proof (cases "loaded h f")
    case None
    with Cons.prems have "\<not> (distinct (map slug (validModes h files))
       \<and> (\<forall>m \<in> set (validModes h files). slugToFile (slug m) = None))"
      by (simp add: validModes_Cons)
    from Cons.IH [OF this, of modes]
    obtain g2 n2 p where g2: "g2 \<in> set files" "loaded h g2 = Some n2"
      and res: "loadModes_loop h files modes slugToFile
          = Inl (Error (duplicateSlugMessage (slug n2) p (fullPath g2)))"
      and why: "slugToFile (slug n2) = Some p
          \<or> (\<exists>g1 n1 xs ys zs. files = xs @ g1 # ys @ g2 # zs \<and> loaded h g1 = Some n1
                \<and> slug n1 = slug n2 \<and> p = fullPath g1)"
      by blast
    from why have why': "slugToFile (slug n2) = Some p
          \<or> (\<exists>g1 n1 xs ys zs. f # files = xs @ g1 # ys @ g2 # zs \<and> loaded h g1 = Some n1
                \<and> slug n1 = slug n2 \<and> p = fullPath g1)"
    proof
      assume "slugToFile (slug n2) = Some p"
      then show ?thesis by (rule disjI1)
    next
      assume "\<exists>g1 n1 xs ys zs. files = xs @ g1 # ys @ g2 # zs \<and> loaded h g1 = Some n1
                \<and> slug n1 = slug n2 \<and> p = fullPath g1"
      then obtain g1 n1 xs ys zs where "files = xs @ g1 # ys @ g2 # zs" "loaded h g1 = Some n1"
                "slug n1 = slug n2" "p = fullPath g1" by blast
      then have "f # files = (f # xs) @ g1 # ys @ g2 # zs \<and> loaded h g1 = Some n1
                \<and> slug n1 = slug n2 \<and> p = fullPath g1" by simp
      then show ?thesis by (intro disjI2 exI)
    qed
    have res': "loadModes_loop h (f # files) modes slugToFile
          = Inl (Error (duplicateSlugMessage (slug n2) p (fullPath g2)))"
      using None res by (simp only: loadModes_loop_Cons option.case)
    from g2 have "g2 \<in> set (f # files)" by simp
    with g2(2) res' why' show ?thesis by (intro exI conjI)
  next
    case (Some mode)
    show ?thesis
    proof (cases "slugToFile (slug mode)")
      case (Some conflictPath)
      have "loadModes_loop h (f # files) modes slugToFile
          = Inl (Error (duplicateSlugMessage (slug mode) conflictPath (fullPath f)))"
        using \<open>loaded h f = Some mode\<close> Some by (simp only: loadModes_loop_Cons option.case)
      moreover have "f \<in> set (f # files)" by simp
      moreover have "slugToFile (slug mode) = Some conflictPath
          \<or> (\<exists>g1 n1 xs ys zs. f # files = xs @ g1 # ys @ f # zs \<and> loaded h g1 = Some n1
                \<and> slug n1 = slug mode \<and> conflictPath = fullPath g1)"
        using Some by (rule disjI1)
      ultimately show ?thesis using \<open>loaded h f = Some mode\<close> by (intro exI conjI)
    next
      case None
      let ?stf = "slugToFile(slug mode \<mapsto> fullPath f)"
      have vm: "validModes h (f # files) = mode # validModes h files"
        using Some by (simp add: validModes_Cons)
      have "\<not> (distinct (map slug (validModes h files))
         \<and> (\<forall>m \<in> set (validModes h files). ?stf (slug m) = None))"
      proof
        assume a: "distinct (map slug (validModes h files))
         \<and> (\<forall>m \<in> set (validModes h files). ?stf (slug m) = None)"
        then have "\<forall>m \<in> set (validModes h files). slug m \<noteq> slug mode"
          by (auto split: if_splits)
        moreover from a have "\<forall>m \<in> set (validModes h files). slugToFile (slug m) = None"
          by (auto split: if_splits)
        ultimately have "distinct (map slug (validModes h (f # files)))
           \<and> (\<forall>m \<in> set (validModes h (f # files)). slugToFile (slug m) = None)"
          using a None by (auto simp: vm)
        with Cons.prems show False by blast
      qed
      from Cons.IH [OF this, of "modes @ [mode]"]
      obtain g2 n2 p where g2: "g2 \<in> set files" "loaded h g2 = Some n2"
        and res: "loadModes_loop h files (modes @ [mode]) ?stf
            = Inl (Error (duplicateSlugMessage (slug n2) p (fullPath g2)))"
        and why: "?stf (slug n2) = Some p
            \<or> (\<exists>g1 n1 xs ys zs. files = xs @ g1 # ys @ g2 # zs \<and> loaded h g1 = Some n1
                  \<and> slug n1 = slug n2 \<and> p = fullPath g1)"
        by blast
      from why have why': "slugToFile (slug n2) = Some p
          \<or> (\<exists>g1 n1 xs ys zs. f # files = xs @ g1 # ys @ g2 # zs \<and> loaded h g1 = Some n1
                \<and> slug n1 = slug n2 \<and> p = fullPath g1)"
      proof
        assume a: "?stf (slug n2) = Some p"
        show ?thesis
        proof (cases "slug n2 = slug mode")
          case True
          with a have p: "p = fullPath f" by simp
          from g2(1) obtain ys zs where "files = ys @ g2 # zs"
            by (auto dest: split_list)
          then have "f # files = [] @ f # ys @ g2 # zs \<and> loaded h f = Some mode
                \<and> slug mode = slug n2 \<and> p = fullPath f"
            using Some True p by simp
          then show ?thesis by (intro disjI2 exI)
        next
          case False
          with a have "slugToFile (slug n2) = Some p" by simp
          then show ?thesis by (rule disjI1)
        qed
      next
        assume "\<exists>g1 n1 xs ys zs. files = xs @ g1 # ys @ g2 # zs \<and> loaded h g1 = Some n1
                \<and> slug n1 = slug n2 \<and> p = fullPath g1"
        then obtain g1 n1 xs ys zs where "files = xs @ g1 # ys @ g2 # zs" "loaded h g1 = Some n1"
                "slug n1 = slug n2" "p = fullPath g1" by blast
        then have "f # files = (f # xs) @ g1 # ys @ g2 # zs \<and> loaded h g1 = Some n1
                \<and> slug n1 = slug n2 \<and> p = fullPath g1" by simp
        then show ?thesis by (intro disjI2 exI)
      qed
      have res': "loadModes_loop h (f # files) modes slugToFile
          = Inl (Error (duplicateSlugMessage (slug n2) p (fullPath g2)))"
        using Some None res by (simp only: loadModes_loop_Cons option.case)
      from g2 have "g2 \<in> set (f # files)" by simp
      with g2(2) res' why' show ?thesis by (intro exI conjI)
    qed
  qed
qed

lemma loaded_Some_iff: "loaded h f = Some m \<longleftrightarrow> loadAndValidateMode h (fullPath f) = Inr (Some m)"
  by (simp add: loadAndValidateMode_loaded)


lemma validModes_pair_not_distinct:
  assumes "files = xs @ f1 # ys @ f2 # zs" "loaded h f1 = Some m1" "loaded h f2 = Some m2"
    "slug m1 = slug m2"
  shows "\<not> distinct (map slug (validModes h files))"
proof -
  have "validModes h files
        = validModes h xs @ m1 # validModes h ys @ m2 # validModes h zs"
    using assms(1-3) by (simp add: validModes_append validModes_Cons)
  with assms(4) show ?thesis by simp
qed

lemma loadModes_loop_conflict:
  assumes "\<not> distinct (map slug (validModes h files))"
  shows "\<exists>xs g1 ys g2 zs n1 n2. files = xs @ g1 # ys @ g2 # zs
           \<and> loaded h g1 = Some n1 \<and> loaded h g2 = Some n2 \<and> slug n1 = slug n2
           \<and> loadModes_loop h files [] Map.empty
               = Inl (Error (duplicateSlugMessage (slug n2) (fullPath g1) (fullPath g2)))"
proof -
  from assms have "\<not> (distinct (map slug (validModes h files))
       \<and> (\<forall>m \<in> set (validModes h files). Map.empty (slug m) = None))" by simp
  from loadModes_loop_dup [OF this, of "[]"]
  obtain g2 n2 p where g2: "loaded h g2 = Some n2"
      and res: "loadModes_loop h files [] Map.empty
          = Inl (Error (duplicateSlugMessage (slug n2) p (fullPath g2)))"
      and why: "Map.empty (slug n2) = Some p
          \<or> (\<exists>g1 n1 xs ys zs. files = xs @ g1 # ys @ g2 # zs \<and> loaded h g1 = Some n1
                \<and> slug n1 = slug n2 \<and> p = fullPath g1)"
    by blast
  from why obtain g1 n1 xs ys zs where "files = xs @ g1 # ys @ g2 # zs" "loaded h g1 = Some n1"
      "slug n1 = slug n2" "p = fullPath g1" by auto
  with g2 res have "files = xs @ g1 # ys @ g2 # zs
           \<and> loaded h g1 = Some n1 \<and> loaded h g2 = Some n2 \<and> slug n1 = slug n2
           \<and> loadModes_loop h files [] Map.empty
               = Inl (Error (duplicateSlugMessage (slug n2) (fullPath g1) (fullPath g2)))"
    by simp
  then show ?thesis by (intro exI)
qed

lemma loadModesFromDirectory_ok:
  assumes "distinct (map slug (validModes h (scanForModeFiles tree rootDir)))"
  shows "loadModesFromDirectory collationKey h tree rootDir
         = Inr (sort_key (\<lambda>m. collationKey (slug m)) (validModes h (scanForModeFiles tree rootDir)))"
proof -
  have "loadModes_loop h (scanForModeFiles tree rootDir) [] Map.empty
        = Inr ([] @ validModes h (scanForModeFiles tree rootDir))"
    using assms by (intro loadModes_loop_ok) simp_all
  then show ?thesis by (simp add: loadModesFromDirectory_def)
qed

lemma loadModesFromDirectory_conflict:
  assumes "\<not> distinct (map slug (validModes h (scanForModeFiles tree rootDir)))"
  shows "\<exists>xs g1 ys g2 zs n1 n2. scanForModeFiles tree rootDir = xs @ g1 # ys @ g2 # zs
           \<and> loadAndValidateMode h (fullPath g1) = Inr (Some n1)
           \<and> loadAndValidateMode h (fullPath g2) = Inr (Some n2)
           \<and> slug n1 = slug n2
           \<and> loadModesFromDirectory collationKey h tree rootDir
               = Inl (Error (duplicateSlugMessage (slug n2) (fullPath g1) (fullPath g2)))"
proof -
  from loadModes_loop_conflict [OF assms]
  obtain xs g1 ys g2 zs n1 n2 where "scanForModeFiles tree rootDir = xs @ g1 # ys @ g2 # zs"
    "loaded h g1 = Some n1" "loaded h g2 = Some n2" "slug n1 = slug n2"
    "loadModes_loop h (scanForModeFiles tree rootDir) [] Map.empty
               = Inl (Error (duplicateSlugMessage (slug n2) (fullPath g1) (fullPath g2)))"
    by blast
  then have "scanForModeFiles tree rootDir = xs @ g1 # ys @ g2 # zs
           \<and> loadAndValidateMode h (fullPath g1) = Inr (Some n1)
           \<and> loadAndValidateMode h (fullPath g2) = Inr (Some n2)
           \<and> slug n1 = slug n2
           \<and> loadModesFromDirectory collationKey h tree rootDir
               = Inl (Error (duplicateSlugMessage (slug n2) (fullPath g1) (fullPath g2)))"
    by (simp add: loadModesFromDirectory_def loaded_Some_iff)
  then show ?thesis by (intro exI)
qed

lemma same_slug_pair_iff:
  "(\<exists>xs f1 ys f2 zs m1 m2. files = xs @ f1 # ys @ f2 # zs
       \<and> loadAndValidateMode h (fullPath f1) = Inr (Some m1)
       \<and> loadAndValidateMode h (fullPath f2) = Inr (Some m2)
       \<and> slug m1 = slug m2)
   \<longleftrightarrow> \<not> distinct (map slug (validModes h files))"
proof
  assume "\<exists>xs f1 ys f2 zs m1 m2. files = xs @ f1 # ys @ f2 # zs
       \<and> loadAndValidateMode h (fullPath f1) = Inr (Some m1)
       \<and> loadAndValidateMode h (fullPath f2) = Inr (Some m2)
       \<and> slug m1 = slug m2"
  then obtain xs f1 ys f2 zs m1 m2 where "files = xs @ f1 # ys @ f2 # zs"
       "loaded h f1 = Some m1" "loaded h f2 = Some m2" "slug m1 = slug m2"
    by (auto simp: loaded_Some_iff)
  then show "\<not> distinct (map slug (validModes h files))"
    by (rule validModes_pair_not_distinct)
next
  assume "\<not> distinct (map slug (validModes h files))"
  from loadModes_loop_conflict [OF this]
  obtain xs g1 ys g2 zs n1 n2 where "files = xs @ g1 # ys @ g2 # zs"
    "loaded h g1 = Some n1" "loaded h g2 = Some n2" "slug n1 = slug n2"
    by blast
  then have "files = xs @ g1 # ys @ g2 # zs
       \<and> loadAndValidateMode h (fullPath g1) = Inr (Some n1)
       \<and> loadAndValidateMode h (fullPath g2) = Inr (Some n2)
       \<and> slug n1 = slug n2"
    by (simp add: loaded_Some_iff)
  then show "\<exists>xs f1 ys f2 zs m1 m2. files = xs @ f1 # ys @ f2 # zs
       \<and> loadAndValidateMode h (fullPath f1) = Inr (Some m1)
       \<and> loadAndValidateMode h (fullPath f2) = Inr (Some m2)
       \<and> slug m1 = slug m2"
    by (intro exI)
qed


lemma loadAndValidateMode_null_iff:
  "loadAndValidateMode h p = Inr None \<longleftrightarrow> isl (readFile h p) \<or> contentError h p"
  by (auto simp: contentError_def loadAndValidateMode_def loadAndValidateMode_try_def isl_def
           split: sum.splits yaml.splits)

lemma set_validModes:
  "set (validModes h files) = {m. \<exists>f \<in> set files. loadAndValidateMode h (fullPath f) = Inr (Some m)}"
  by (induction files) (auto simp: validModes_Cons loaded_Some_iff [symmetric] split: option.splits)

text \<open>
  Claim C1. When two candidate files of the scan both load to modes with the same slug,
  \<open>loadModesFromDirectory\<close> throws: it returns no list, and the error's message is the
  duplicate-slug message naming the paths of two candidates that load to modes with one
  slug, the earlier one first (the first conflict the loop meets).
\<close>

theorem duplicate_slug_is_fatal:
  assumes "scanForModeFiles tree rootDir = xs @ f1 # ys @ f2 # zs"
    and "loadAndValidateMode h (fullPath f1) = Inr (Some m1)"
    and "loadAndValidateMode h (fullPath f2) = Inr (Some m2)"
    and "slug m1 = slug m2"
  shows "\<exists>xs' g1 ys' g2 zs' n1 n2.
           scanForModeFiles tree rootDir = xs' @ g1 # ys' @ g2 # zs'
         \<and> loadAndValidateMode h (fullPath g1) = Inr (Some n1)
         \<and> loadAndValidateMode h (fullPath g2) = Inr (Some n2)
         \<and> slug n1 = slug n2
         \<and> loadModesFromDirectory collationKey h tree rootDir
             = Inl (Error (duplicateSlugMessage (slug n2) (fullPath g1) (fullPath g2)))"
proof -
  have "\<exists>xs f1 ys f2 zs m1 m2. scanForModeFiles tree rootDir = xs @ f1 # ys @ f2 # zs
       \<and> loadAndValidateMode h (fullPath f1) = Inr (Some m1)
       \<and> loadAndValidateMode h (fullPath f2) = Inr (Some m2)
       \<and> slug m1 = slug m2"
    using assms by blast
  then have "\<not> distinct (map slug (validModes h (scanForModeFiles tree rootDir)))"
    by (rule same_slug_pair_iff [THEN iffD1])
  then show ?thesis by (rule loadModesFromDirectory_conflict)
qed

theorem duplicate_slug_is_fatal_witness:
  "scanForModeFiles (Some [File ''a.yaml'', File ''b.yaml'']) [''project'', ''modes'']
     = [] @ \<lparr>fullPath = [''project'', ''modes'', ''a.yaml''], relativePath = [''a.yaml'']\<rparr>
         # [] @ \<lparr>fullPath = [''project'', ''modes'', ''b.yaml''], relativePath = [''b.yaml'']\<rparr> # []
   \<and> loadAndValidateMode
         (demo_host [([''project'', ''modes'', ''a.yaml''], ''mode: dup''),
                     ([''project'', ''modes'', ''b.yaml''], ''mode: dup'')])
         [''project'', ''modes'', ''a.yaml''] = Inr (Some (demo_mode ''dup''))
   \<and> loadAndValidateMode
         (demo_host [([''project'', ''modes'', ''a.yaml''], ''mode: dup''),
                     ([''project'', ''modes'', ''b.yaml''], ''mode: dup'')])
         [''project'', ''modes'', ''b.yaml''] = Inr (Some (demo_mode ''dup''))
   \<and> isl (loadModesFromDirectory (\<lambda>s. s)
         (demo_host [([''project'', ''modes'', ''a.yaml''], ''mode: dup''),
                     ([''project'', ''modes'', ''b.yaml''], ''mode: dup'')])
         (Some [File ''a.yaml'', File ''b.yaml'']) [''project'', ''modes''])
   \<and> loadModesFromDirectory (\<lambda>s. s)
         (demo_host [([''project'', ''modes'', ''a.yaml''], ''mode: dup''),
                     ([''project'', ''modes'', ''b.yaml''], ''mode: dup'')])
         (Some [File ''a.yaml'', File ''b.yaml'']) [''project'', ''modes'']
       = Inl (Error (''Duplicate mode slug detected: '' @ [CHR 0x22] @ ''dup'' @ [CHR 0x22]
                     @ ''. Files: /project/modes/a.yaml and /project/modes/b.yaml''))"
proof -
  let ?h = "demo_host [([''project'', ''modes'', ''a.yaml''], ''mode: dup''),
                     ([''project'', ''modes'', ''b.yaml''], ''mode: dup'')]"
  let ?a = "\<lparr>fullPath = [''project'', ''modes'', ''a.yaml''], relativePath = [''a.yaml'']\<rparr>"
  let ?b = "\<lparr>fullPath = [''project'', ''modes'', ''b.yaml''], relativePath = [''b.yaml'']\<rparr>"
  have scan: "scanForModeFiles (Some [File ''a.yaml'', File ''b.yaml'']) [''project'', ''modes'']
     = [] @ ?a # [] @ ?b # []"
    by code_simp
  have a: "loadAndValidateMode ?h (fullPath ?a) = Inr (Some (demo_mode ''dup''))"
    by code_simp
  have b: "loadAndValidateMode ?h (fullPath ?b) = Inr (Some (demo_mode ''dup''))"
    by code_simp
  from duplicate_slug_is_fatal [OF scan a b refl, of "\<lambda>s. s"]
  have fatal: "isl (loadModesFromDirectory (\<lambda>s. s) ?h
         (Some [File ''a.yaml'', File ''b.yaml'']) [''project'', ''modes''])"
    by (auto simp: isl_def)
  have msg: "loadModesFromDirectory (\<lambda>s. s) ?h
         (Some [File ''a.yaml'', File ''b.yaml'']) [''project'', ''modes'']
       = Inl (Error (''Duplicate mode slug detected: '' @ [CHR 0x22] @ ''dup'' @ [CHR 0x22]
                     @ ''. Files: /project/modes/a.yaml and /project/modes/b.yaml''))"
    by code_simp
  from scan a b fatal msg show ?thesis by simp
qed

text \<open>
  Claim C10. \<open>loadModesFromDirectory\<close> throws if and only if two candidate files both
  load successfully and yield the same slug. A file that fails to parse or to validate
  takes no part in the detection: when no two loaded files share a slug, the result is the
  list of the modes of the files that load, sorted.
\<close>

theorem duplicate_detection_counts_valid_files_only:
  "((\<exists>err. loadModesFromDirectory collationKey h tree rootDir = Inl err)
     \<longleftrightarrow> (\<exists>xs f1 ys f2 zs m1 m2. scanForModeFiles tree rootDir = xs @ f1 # ys @ f2 # zs
           \<and> loadAndValidateMode h (fullPath f1) = Inr (Some m1)
           \<and> loadAndValidateMode h (fullPath f2) = Inr (Some m2)
           \<and> slug m1 = slug m2))
   \<and> (\<not> (\<exists>xs f1 ys f2 zs m1 m2. scanForModeFiles tree rootDir = xs @ f1 # ys @ f2 # zs
           \<and> loadAndValidateMode h (fullPath f1) = Inr (Some m1)
           \<and> loadAndValidateMode h (fullPath f2) = Inr (Some m2)
           \<and> slug m1 = slug m2)
       \<longrightarrow> loadModesFromDirectory collationKey h tree rootDir
             = Inr (sort_key (\<lambda>m. collationKey (slug m))
                      (validModes h (scanForModeFiles tree rootDir))))"
proof -
  let ?pair = "\<exists>xs f1 ys f2 zs m1 m2. scanForModeFiles tree rootDir = xs @ f1 # ys @ f2 # zs
           \<and> loadAndValidateMode h (fullPath f1) = Inr (Some m1)
           \<and> loadAndValidateMode h (fullPath f2) = Inr (Some m2)
           \<and> slug m1 = slug m2"
  let ?result = "loadModesFromDirectory collationKey h tree rootDir"
  have pair: "?pair \<longleftrightarrow> \<not> distinct (map slug (validModes h (scanForModeFiles tree rootDir)))"
    by (rule same_slug_pair_iff)
  show ?thesis
  proof (cases "distinct (map slug (validModes h (scanForModeFiles tree rootDir)))")
    case True
    then have ok: "?result = Inr (sort_key (\<lambda>m. collationKey (slug m))
                      (validModes h (scanForModeFiles tree rootDir)))"
      by (rule loadModesFromDirectory_ok)
    then have "\<not> (\<exists>err. ?result = Inl err)" by simp
    moreover from pair True have "\<not> ?pair" by blast
    ultimately show ?thesis using ok by blast
  next
    case False
    from loadModesFromDirectory_conflict [OF False, of collationKey]
    have "\<exists>err. ?result = Inl err" by blast
    moreover from pair False have "?pair" by blast
    ultimately show ?thesis by blast
  qed
qed

theorem duplicate_detection_counts_valid_files_only_witness:
  "\<not> (\<exists>xs f1 ys f2 zs m1 m2.
          scanForModeFiles (Some [File ''a.yaml'', File ''b.yaml'']) [''project'', ''modes'']
            = xs @ f1 # ys @ f2 # zs
        \<and> loadAndValidateMode
              (demo_host [([''project'', ''modes'', ''a.yaml''], ''mode: dup''),
                          ([''project'', ''modes'', ''b.yaml''], ''slug: dup'')])
              (fullPath f1) = Inr (Some m1)
        \<and> loadAndValidateMode
              (demo_host [([''project'', ''modes'', ''a.yaml''], ''mode: dup''),
                          ([''project'', ''modes'', ''b.yaml''], ''slug: dup'')])
              (fullPath f2) = Inr (Some m2)
        \<and> slug m1 = slug m2)
   \<and> loadAndValidateMode
         (demo_host [([''project'', ''modes'', ''a.yaml''], ''mode: dup''),
                     ([''project'', ''modes'', ''b.yaml''], ''slug: dup'')])
         [''project'', ''modes'', ''b.yaml''] = Inr None
   \<and> loadModesFromDirectory (\<lambda>s. s)
         (demo_host [([''project'', ''modes'', ''a.yaml''], ''mode: dup''),
                     ([''project'', ''modes'', ''b.yaml''], ''slug: dup'')])
         (Some [File ''a.yaml'', File ''b.yaml'']) [''project'', ''modes'']
       = Inr [demo_mode ''dup'']"
proof -
  let ?h = "demo_host [([''project'', ''modes'', ''a.yaml''], ''mode: dup''),
                       ([''project'', ''modes'', ''b.yaml''], ''slug: dup'')]"
  let ?tree = "Some [File ''a.yaml'', File ''b.yaml'']"
  let ?root = "[''project'', ''modes'']"
  have "distinct (map slug (validModes ?h (scanForModeFiles ?tree ?root)))"
    by code_simp
  then have nopair: "\<not> (\<exists>xs f1 ys f2 zs m1 m2.
          scanForModeFiles ?tree ?root = xs @ f1 # ys @ f2 # zs
        \<and> loadAndValidateMode ?h (fullPath f1) = Inr (Some m1)
        \<and> loadAndValidateMode ?h (fullPath f2) = Inr (Some m2)
        \<and> slug m1 = slug m2)"
    using same_slug_pair_iff [of "scanForModeFiles ?tree ?root" ?h] by blast
  have null: "loadAndValidateMode ?h [''project'', ''modes'', ''b.yaml''] = Inr None"
    by code_simp
  from duplicate_detection_counts_valid_files_only [of "\<lambda>s. s" ?h ?tree ?root] nopair
  have "loadModesFromDirectory (\<lambda>s. s) ?h ?tree ?root
        = Inr (sort_key (\<lambda>m. slug m) (validModes ?h (scanForModeFiles ?tree ?root)))"
    by blast
  also have "sort_key (\<lambda>m. slug m) (validModes ?h (scanForModeFiles ?tree ?root))
             = [demo_mode ''dup'']"
    by code_simp
  finally have "loadModesFromDirectory (\<lambda>s. s) ?h ?tree ?root = Inr [demo_mode ''dup'']" .
  with nopair null show ?thesis by blast
qed



text \<open>
  Claim C4, as the code has it. \<open>loadAndValidateMode\<close> never throws. It returns
  \<^verbatim>\<open>null\<close> exactly when the file's text cannot be read or the file has a content
  error: \<^verbatim>\<open>readFile\<close> is called inside the \<^verbatim>\<open>try\<close> block, so a failed read is
  caught like a parse failure and does not reach the caller.
\<close>

theorem loadAndValidateMode_never_throws:
  "(\<forall>err. loadAndValidateMode h filePath \<noteq> Inl err)
   \<and> (loadAndValidateMode h filePath = Inr None
        \<longleftrightarrow> isl (readFile h filePath) \<or> contentError h filePath)"
  using loadAndValidateMode_never_Inl [of h filePath] loadAndValidateMode_null_iff [of h filePath]
  by blast

text \<open>
  Claim C4 as stated says that a failure to read the file propagates as an error. Here
  the file does not exist, \<^verbatim>\<open>readFile\<close> fails, and the loader returns \<^verbatim>\<open>null\<close>.
\<close>

theorem read_failure_yields_null_counterexample:
  "readFile (demo_host []) [''project'', ''modes'', ''a.yaml'']
     = Inl (Error ''ENOENT: no such file or directory'')
   \<and> loadAndValidateMode (demo_host []) [''project'', ''modes'', ''a.yaml''] = Inr None"
  by code_simp


lemma path_relative_prefix: "path_relative r (r @ segs) = segs"
  by (induction r) simp_all

lemma scan_candidates:
  assumes "f \<in> set (scanForModeFiles tree rootDir)"
  shows "candidateSegments (relativePath f) \<and> fullPath f = rootDir @ relativePath f"
proof -
  from assms walk_candidates(1) [of f rootDir rootDir tree "[]"]
  obtain segs where "candidateSegments segs" "fullPath f = rootDir @ segs"
    "relativePath f = path_relative rootDir (rootDir @ segs)"
    by (auto simp: scanForModeFiles_def)
  then show ?thesis by (simp add: path_relative_prefix)
qed

lemma loadAndValidateMode_cong:
  assumes r: "readFile h' p = readFile h p"
    and y: "yaml_parse h' = yaml_parse h"
    and s: "safeParse h' = safeParse h"
  shows "loadAndValidateMode h' p = loadAndValidateMode h p"
  unfolding loadAndValidateMode_def loadAndValidateMode_try_def r y s by (rule refl)

lemma loadModes_loop_cong:
  "\<forall>f \<in> set files. loadAndValidateMode h' (fullPath f) = loadAndValidateMode h (fullPath f) \<Longrightarrow>
   loadModes_loop h' files modes slugToFile = loadModes_loop h files modes slugToFile"
proof (induction files arbitrary: modes slugToFile)
  case Nil
  show ?case by simp
next
  case (Cons f files)
  then have "loaded h' f = loaded h f" by (simp add: loaded_def)
  moreover from Cons have "\<And>modes slugToFile.
     loadModes_loop h' files modes slugToFile = loadModes_loop h files modes slugToFile"
    by simp
  ultimately show ?case by (simp only: loadModes_loop_Cons)
qed

lemma loadModesFromDirectory_Inr_set:
  assumes "loadModesFromDirectory collationKey h tree rootDir = Inr modes"
  shows "set modes = set (validModes h (scanForModeFiles tree rootDir))"
proof (cases "distinct (map slug (validModes h (scanForModeFiles tree rootDir)))")
  case True
  from loadModesFromDirectory_ok [OF True, of collationKey] assms
  have "modes = sort_key (\<lambda>m. collationKey (slug m)) (validModes h (scanForModeFiles tree rootDir))"
    by simp
  then show ?thesis by simp
next
  case False
  from loadModesFromDirectory_conflict [OF False, of collationKey]
  obtain err where "loadModesFromDirectory collationKey h tree rootDir = Inl err" by blast
  with assms show ?thesis by simp
qed

text \<open>
  Claim C5. Every file the scan yields lies at \<open>rootDir @ relativePath\<close> where no
  directory on the relative path is an excluded one, the file's extension (in lower case)
  is \<^verbatim>\<open>.yaml\<close> or \<^verbatim>\<open>.yml\<close>, and its base name does not start with an underscore.
  The modes that \<open>loadModesFromDirectory\<close> returns are exactly the modes loaded from
  those files; and its result does not depend on the content of any other file: two
  hosts whose file contents agree on the scanned candidates give the same result, even
  when an excluded file holds a valid mode record in one of them.
\<close>

theorem excluded_files_never_loaded:
  "(\<forall>f \<in> set (scanForModeFiles tree rootDir).
       fullPath f = rootDir @ relativePath f
     \<and> relativePath f \<noteq> []
     \<and> (\<forall>d \<in> set (butlast (relativePath f)). d \<notin> EXCLUDED_DIRS)
     \<and> toLowerCase (path_extname (last (relativePath f))) \<in> ALLOWED_EXTENSIONS
     \<and> \<not> startsWith (last (relativePath f)) ''_'')
   \<and> (\<forall>modes. loadModesFromDirectory collationKey h tree rootDir = Inr modes \<longrightarrow>
         set modes = {m. \<exists>f \<in> set (scanForModeFiles tree rootDir).
                           loadAndValidateMode h (fullPath f) = Inr (Some m)})
   \<and> (\<forall>h'. yaml_parse h' = yaml_parse h \<and> safeParse h' = safeParse h
            \<and> (\<forall>f \<in> set (scanForModeFiles tree rootDir).
                   readFile h' (fullPath f) = readFile h (fullPath f))
         \<longrightarrow> loadModesFromDirectory collationKey h' tree rootDir
               = loadModesFromDirectory collationKey h tree rootDir)"
proof (intro conjI ballI allI impI)
  fix f :: FileEntry
  assume "f \<in> set (scanForModeFiles tree rootDir)"
  then have cp: "candidateSegments (relativePath f) \<and> fullPath f = rootDir @ relativePath f"
    by (rule scan_candidates)
  then have c: "candidateSegments (relativePath f)" and p: "fullPath f = rootDir @ relativePath f"
    by (rule conjunct1, rule conjunct2)
  from p show "fullPath f = rootDir @ relativePath f" .
  from c show "relativePath f \<noteq> []" by (simp add: candidateSegments_def)
  from c show "toLowerCase (path_extname (last (relativePath f))) \<in> ALLOWED_EXTENSIONS"
    by (simp add: candidateSegments_def)
  from c show "\<not> startsWith (last (relativePath f)) ''_''"
    by (simp add: candidateSegments_def)
  fix d assume "d \<in> set (butlast (relativePath f))"
  with c show "d \<notin> EXCLUDED_DIRS" by (simp add: candidateSegments_def)
next
  fix modes
  assume "loadModesFromDirectory collationKey h tree rootDir = Inr modes"
  then have "set modes = set (validModes h (scanForModeFiles tree rootDir))"
    by (rule loadModesFromDirectory_Inr_set)
  then show "set modes = {m. \<exists>f \<in> set (scanForModeFiles tree rootDir).
                           loadAndValidateMode h (fullPath f) = Inr (Some m)}"
    by (simp only: set_validModes)
next
  fix h' :: host
  assume a: "yaml_parse h' = yaml_parse h \<and> safeParse h' = safeParse h
            \<and> (\<forall>f \<in> set (scanForModeFiles tree rootDir).
                   readFile h' (fullPath f) = readFile h (fullPath f))"
  have "\<forall>f \<in> set (scanForModeFiles tree rootDir).
      loadAndValidateMode h' (fullPath f) = loadAndValidateMode h (fullPath f)"
  proof
    fix f :: FileEntry
    assume "f \<in> set (scanForModeFiles tree rootDir)"
    with a have r: "readFile h' (fullPath f) = readFile h (fullPath f)" by blast
    from a have y: "yaml_parse h' = yaml_parse h" and s: "safeParse h' = safeParse h"
      by blast+
    show "loadAndValidateMode h' (fullPath f) = loadAndValidateMode h (fullPath f)"
      by (rule loadAndValidateMode_cong [OF r y s])
  qed
  then have "loadModes_loop h' (scanForModeFiles tree rootDir) [] Map.empty
           = loadModes_loop h (scanForModeFiles tree rootDir) [] Map.empty"
    by (rule loadModes_loop_cong)
  then show "loadModesFromDirectory collationKey h' tree rootDir
               = loadModesFromDirectory collationKey h tree rootDir"
    by (simp add: loadModesFromDirectory_def)
qed

theorem excluded_files_never_loaded_witness:
  "scanForModeFiles
     (Some [Directory ''node_modules'' (Some [File ''pkg.yaml'']),
            Directory ''.git'' (Some [File ''hook.yml'']),
            File ''notes.txt'', File ''_draft.yaml'', File ''ok.yaml''])
     [''modes'']
     = [\<lparr>fullPath = [''modes'', ''ok.yaml''], relativePath = [''ok.yaml'']\<rparr>]
   \<and> loadModesFromDirectory (\<lambda>s. s)
        (demo_host [([''modes'', ''node_modules'', ''pkg.yaml''], ''mode: pkg''),
                    ([''modes'', ''.git'', ''hook.yml''], ''mode: hook''),
                    ([''modes'', ''notes.txt''], ''mode: notes''),
                    ([''modes'', ''_draft.yaml''], ''mode: draft''),
                    ([''modes'', ''ok.yaml''], ''mode: ok'')])
        (Some [Directory ''node_modules'' (Some [File ''pkg.yaml'']),
               Directory ''.git'' (Some [File ''hook.yml'']),
               File ''notes.txt'', File ''_draft.yaml'', File ''ok.yaml''])
        [''modes'']
      = Inr [demo_mode ''ok'']
   \<and> loadModesFromDirectory (\<lambda>s. s)
        (demo_host [([''modes'', ''ok.yaml''], ''mode: ok'')])
        (Some [Directory ''node_modules'' (Some [File ''pkg.yaml'']),
               Directory ''.git'' (Some [File ''hook.yml'']),
               File ''notes.txt'', File ''_draft.yaml'', File ''ok.yaml''])
        [''modes'']
      = loadModesFromDirectory (\<lambda>s. s)
        (demo_host [([''modes'', ''node_modules'', ''pkg.yaml''], ''mode: pkg''),
                    ([''modes'', ''.git'', ''hook.yml''], ''mode: hook''),
                    ([''modes'', ''notes.txt''], ''mode: notes''),
                    ([''modes'', ''_draft.yaml''], ''mode: draft''),
                    ([''modes'', ''ok.yaml''], ''mode: ok'')])
        (Some [Directory ''node_modules'' (Some [File ''pkg.yaml'']),
               Directory ''.git'' (Some [File ''hook.yml'']),
               File ''notes.txt'', File ''_draft.yaml'', File ''ok.yaml''])
        [''modes'']"
proof -
  let ?tree = "Some [Directory ''node_modules'' (Some [File ''pkg.yaml'']),
            Directory ''.git'' (Some [File ''hook.yml'']),
            File ''notes.txt'', File ''_draft.yaml'', File ''ok.yaml'']"
  let ?h = "demo_host [([''modes'', ''node_modules'', ''pkg.yaml''], ''mode: pkg''),
                    ([''modes'', ''.git'', ''hook.yml''], ''mode: hook''),
                    ([''modes'', ''notes.txt''], ''mode: notes''),
                    ([''modes'', ''_draft.yaml''], ''mode: draft''),
                    ([''modes'', ''ok.yaml''], ''mode: ok'')]"
  let ?h' = "demo_host [([''modes'', ''ok.yaml''], ''mode: ok'')]"
  have scan: "scanForModeFiles ?tree [''modes'']
     = [\<lparr>fullPath = [''modes'', ''ok.yaml''], relativePath = [''ok.yaml'']\<rparr>]"
    by code_simp
  have run: "loadModesFromDirectory (\<lambda>s. s) ?h ?tree [''modes''] = Inr [demo_mode ''ok'']"
    by code_simp
  have same: "yaml_parse ?h' = yaml_parse ?h \<and> safeParse ?h' = safeParse ?h
            \<and> (\<forall>f \<in> set (scanForModeFiles ?tree [''modes'']).
                   readFile ?h' (fullPath f) = readFile ?h (fullPath f))"
    by (simp add: scan demo_host_def)
  have eq: "loadModesFromDirectory (\<lambda>s. s) ?h' ?tree [''modes'']
        = loadModesFromDirectory (\<lambda>s. s) ?h ?tree [''modes'']"
    by (rule excluded_files_never_loaded [of ?tree "[''modes'']" "\<lambda>s. s" ?h,
               THEN conjunct2, THEN conjunct2, rule_format, of ?h', OF same])
  from scan run eq show ?thesis by (intro conjI)
qed






lemma mset_distinct_map_iff:
  "mset xs = mset ys \<Longrightarrow> distinct (map f xs) \<longleftrightarrow> distinct (map f ys)"
proof -
  assume "mset xs = mset ys"
  then have "mset (map f xs) = mset (map f ys)" by simp
  then show ?thesis by (rule mset_eq_imp_distinct_iff)
qed




section \<open>Properties of the precedence resolver\<close>

lemma find_append_slug:
  "find P (xs @ ys) = (case find P xs of Some x \<Rightarrow> Some x | None \<Rightarrow> find P ys)"
  by (induction xs) simp_all

lemma find_mergeSource:
  "find (\<lambda>x. slug x = s) (mergeSource acc src)
     = (case find (\<lambda>x. slug x = s) acc of Some x \<Rightarrow> Some x
        | None \<Rightarrow> find (\<lambda>x. slug x = s) src)"
proof (induction src arbitrary: acc)
  case Nil
  show ?case by (simp split: option.splits)
next
  case (Cons m ms)
  show ?case
  proof (cases "slug m \<in> set (map slug acc)")
    case True
    have "find (\<lambda>x. slug x = s) acc \<noteq> None" if "slug m = s"
      using True that by (auto simp: find_None_iff)
    with True Cons.IH [of acc] show ?thesis by (auto split: option.splits)
  next
    case False
    with Cons.IH [of "acc @ [m]"] show ?thesis
      by (simp add: find_append_slug split: option.splits)
  qed
qed

lemma distinct_mergeSource:
  "distinct (map slug acc) \<Longrightarrow> distinct (map slug (mergeSource acc src))"
  by (induction src arbitrary: acc) simp_all

lemma slugs_mergeSource:
  "slug ` set (mergeSource acc src) = slug ` set acc \<union> slug ` set src"
  by (induction src arbitrary: acc) auto

lemma find_unique:
  "distinct (map f xs) \<Longrightarrow> m \<in> set xs \<Longrightarrow> find (\<lambda>x. f x = f m) xs = Some m"
  by (induction xs) (auto simp: image_iff)

lemma find_same_set:
  assumes "distinct (map f xs)" "distinct (map f ys)" "set xs = set ys"
  shows "find (\<lambda>x. f x = s) xs = find (\<lambda>x. f x = s) ys"
proof (cases "find (\<lambda>x. f x = s) xs")
  case None
  then have "\<forall>x \<in> set ys. f x \<noteq> s" using assms(3) by (auto simp: find_None_iff)
  then have "find (\<lambda>x. f x = s) ys = None" by (simp add: find_None_iff)
  with None show ?thesis by simp
next
  case (Some m)
  then have "m \<in> set xs" "f m = s" by (auto simp: find_Some_iff)
  with assms(3) find_unique [OF assms(2), of m] have "find (\<lambda>x. f x = s) ys = Some m" by auto
  with Some show ?thesis by simp
qed

lemma merged_sources:
  "find (\<lambda>x. slug x = s) (foldl mergeSource [] [a, b, c, d]) = find (\<lambda>x. slug x = s) (a @ b @ c @ d)"
  "distinct (map slug (foldl mergeSource [] [a, b, c, d]))"
  "slug ` set (foldl mergeSource [] [a, b, c, d]) = slug ` (set a \<union> set b \<union> set c \<union> set d)"
  by (auto simp: find_mergeSource find_append_slug distinct_mergeSource slugs_mergeSource
           split: option.splits)

lemma slugs_stampSource [simp]: "map slug (stampSource scope modes) = map slug modes"
  by (simp add: stampSource_def)

lemma set_stampSource: "set (stampSource scope modes) = (\<lambda>m. m\<lparr>source := Some scope\<rparr>) ` set modes"
  by (simp add: stampSource_def)

lemma find_stampSource:
  assumes "distinct (map slug modes)" "m \<in> set modes"
  shows "find (\<lambda>x. slug x = slug m) (stampSource scope modes) = Some (m\<lparr>source := Some scope\<rparr>)"
proof -
  have "distinct (map slug (stampSource scope modes))" using assms(1) by simp
  moreover have "m\<lparr>source := Some scope\<rparr> \<in> set (stampSource scope modes)"
    using assms(2) by (simp add: set_stampSource)
  ultimately have "find (\<lambda>x. slug x = slug (m\<lparr>source := Some scope\<rparr>)) (stampSource scope modes)
                   = Some (m\<lparr>source := Some scope\<rparr>)"
    by (rule find_unique)
  then show ?thesis by simp
qed

lemma find_getCustomModes:
  "find (\<lambda>x. slug x = s) (getCustomModes pd pf gd gf)
     = find (\<lambda>x. slug x = s)
         (stampSource project pd @ stampSource project pf
            @ stampSource global gd @ stampSource global gf)"
proof -
  let ?merged = "foldl mergeSource []
          [stampSource project pd, stampSource project pf,
           stampSource global gd, stampSource global gf]"
  have d: "distinct (map slug ?merged)" by (rule merged_sources(2))
  have "mset (sort_key slug ?merged) = mset ?merged" by simp
  then have "distinct (map slug (sort_key slug ?merged)) \<longleftrightarrow> distinct (map slug ?merged)"
    by (rule mset_distinct_map_iff)
  with d have d': "distinct (map slug (sort_key slug ?merged))" by simp
  have "find (\<lambda>x. slug x = s) (sort_key slug ?merged) = find (\<lambda>x. slug x = s) ?merged"
    using d' d by (rule find_same_set) simp
  then show ?thesis by (simp only: getCustomModes_def merged_sources(1))
qed

text \<open>
  Claim C2. In the merged result every slug resolves to the entry of the first source, in
  the order project directory, project file, global directory, global file, that has the
  slug: a lower source never overwrites it. So a mode of the project directory is in the
  result as it is there, with \<open>source = project\<close>, whatever the other three sources hold
  under its slug; the slugs of the result are the slugs of all four sources, each once;
  and the result is sorted by slug.
\<close>

theorem project_directory_takes_precedence:
  assumes "distinct (map slug projectDirectory)"
  shows "(\<forall>m \<in> set projectDirectory.
            find (\<lambda>x. slug x = slug m)
                 (getCustomModes projectDirectory projectFile globalDirectory globalFile)
              = Some (m\<lparr>source := Some project\<rparr>))
       \<and> (\<forall>s. find (\<lambda>x. slug x = s)
                 (getCustomModes projectDirectory projectFile globalDirectory globalFile)
              = find (\<lambda>x. slug x = s)
                  (stampSource project projectDirectory @ stampSource project projectFile
                     @ stampSource global globalDirectory @ stampSource global globalFile))
       \<and> slug ` set (getCustomModes projectDirectory projectFile globalDirectory globalFile)
            = slug ` (set projectDirectory \<union> set projectFile
                        \<union> set globalDirectory \<union> set globalFile)
       \<and> distinct (map slug (getCustomModes projectDirectory projectFile globalDirectory globalFile))
       \<and> sorted (map slug (getCustomModes projectDirectory projectFile globalDirectory globalFile))"
proof (intro conjI ballI allI)
  fix m assume m: "m \<in> set projectDirectory"
  have "find (\<lambda>x. slug x = slug m)
          (getCustomModes projectDirectory projectFile globalDirectory globalFile)
        = find (\<lambda>x. slug x = slug m)
            (stampSource project projectDirectory @ stampSource project projectFile
               @ stampSource global globalDirectory @ stampSource global globalFile)"
    by (rule find_getCustomModes)
  also have "\<dots> = Some (m\<lparr>source := Some project\<rparr>)"
    using find_stampSource [OF assms m, of project] by (simp add: find_append_slug)
  finally show "find (\<lambda>x. slug x = slug m)
          (getCustomModes projectDirectory projectFile globalDirectory globalFile)
        = Some (m\<lparr>source := Some project\<rparr>)" .
next
  fix s
  show "find (\<lambda>x. slug x = s)
                 (getCustomModes projectDirectory projectFile globalDirectory globalFile)
              = find (\<lambda>x. slug x = s)
                  (stampSource project projectDirectory @ stampSource project projectFile
                     @ stampSource global globalDirectory @ stampSource global globalFile)"
    by (rule find_getCustomModes)
next
  have "slug ` set (getCustomModes projectDirectory projectFile globalDirectory globalFile)
        = slug ` (set (stampSource project projectDirectory) \<union> set (stampSource project projectFile)
            \<union> set (stampSource global globalDirectory) \<union> set (stampSource global globalFile))"
    by (simp only: getCustomModes_def set_sort merged_sources(3))
  also have "\<dots> = slug ` (set projectDirectory \<union> set projectFile
                        \<union> set globalDirectory \<union> set globalFile)"
    by (simp add: image_Un set_stampSource image_image)
  finally show "slug ` set (getCustomModes projectDirectory projectFile globalDirectory globalFile)
            = slug ` (set projectDirectory \<union> set projectFile
                        \<union> set globalDirectory \<union> set globalFile)" .
next
  let ?merged = "foldl mergeSource []
          [stampSource project projectDirectory, stampSource project projectFile,
           stampSource global globalDirectory, stampSource global globalFile]"
  have "mset (sort_key slug ?merged) = mset ?merged" by simp
  then have "distinct (map slug (sort_key slug ?merged)) \<longleftrightarrow> distinct (map slug ?merged)"
    by (rule mset_distinct_map_iff)
  then show "distinct (map slug (getCustomModes projectDirectory projectFile globalDirectory globalFile))"
    by (simp only: getCustomModes_def merged_sources(2))
next
  show "sorted (map slug (getCustomModes projectDirectory projectFile globalDirectory globalFile))"
    by (simp add: getCustomModes_def)
qed

theorem project_directory_takes_precedence_witness:
  "distinct (map slug [test_mode ''all'' ''All ProjectDir'' project, test_mode ''pd'' ''PD'' project])
   \<and> find (\<lambda>x. slug x = ''all'')
        (getCustomModes
           [test_mode ''all'' ''All ProjectDir'' project, test_mode ''pd'' ''PD'' project]
           [test_mode ''all'' ''All ProjectFile'' project, test_mode ''pf'' ''PF'' project]
           [test_mode ''all'' ''All GlobalDir'' global, test_mode ''gd'' ''GD'' global]
           [test_mode ''all'' ''All GlobalSettings'' global, test_mode ''gs'' ''GS'' global])
       = Some (test_mode ''all'' ''All ProjectDir'' project)
   \<and> getCustomModes
        [test_mode ''all'' ''All ProjectDir'' project, test_mode ''pd'' ''PD'' project]
        [test_mode ''all'' ''All ProjectFile'' project, test_mode ''pf'' ''PF'' project]
        [test_mode ''all'' ''All GlobalDir'' global, test_mode ''gd'' ''GD'' global]
        [test_mode ''all'' ''All GlobalSettings'' global, test_mode ''gs'' ''GS'' global]
      = [test_mode ''all'' ''All ProjectDir'' project, test_mode ''gd'' ''GD'' global,
         test_mode ''gs'' ''GS'' global, test_mode ''pd'' ''PD'' project,
         test_mode ''pf'' ''PF'' project]"
proof -
  let ?pd = "[test_mode ''all'' ''All ProjectDir'' project, test_mode ''pd'' ''PD'' project]"
  let ?pf = "[test_mode ''all'' ''All ProjectFile'' project, test_mode ''pf'' ''PF'' project]"
  let ?gd = "[test_mode ''all'' ''All GlobalDir'' global, test_mode ''gd'' ''GD'' global]"
  let ?gs = "[test_mode ''all'' ''All GlobalSettings'' global, test_mode ''gs'' ''GS'' global]"
  have d: "distinct (map slug ?pd)" by (simp add: test_mode_def)
  have "test_mode ''all'' ''All ProjectDir'' project \<in> set ?pd" by simp
  from project_directory_takes_precedence [OF d, of ?pf ?gd ?gs, THEN conjunct1, rule_format, OF this]
  have found: "find (\<lambda>x. slug x = ''all'') (getCustomModes ?pd ?pf ?gd ?gs)
       = Some (test_mode ''all'' ''All ProjectDir'' project)"
    by (simp add: test_mode_def)
  have all: "getCustomModes ?pd ?pf ?gd ?gs
      = [test_mode ''all'' ''All ProjectDir'' project, test_mode ''gd'' ''GD'' global,
         test_mode ''gs'' ''GS'' global, test_mode ''pd'' ''PD'' project,
         test_mode ''pf'' ''PF'' project]"
    by code_simp
  from d found all show ?thesis by (intro conjI)
qed

end
